theory Spec2Isabelle
  imports Complex_Main "HOL-Library.AList" "HOL-Library.Multiset"
    "HOL-Library.Char_ord" "HOL-Library.List_Lexorder"
begin

section \<open>Values of the Python program\<close>

text \<open>
  The development embeds the status reducer, the cost aggregator, the failure
  state matrix and the price lookup of \<^verbatim>\<open>dalmatian/fctools.py\<close>.

  Exceptions are values: every function that can raise returns \<open>error + 'a\<close>.
  A \<^verbatim>\<open>dict\<close> is an association list in insertion order with distinct keys,
  assignment \<^verbatim>\<open>d[k] = v\<close> is \<open>AList.update\<close> (an existing key keeps its place,
  a new key goes to the end) and lookup is \<open>map_of\<close>.

  A Python \<^verbatim>\<open>float\<close> is a real number or NaN. Rounding is not modelled: the
  arithmetic on non-NaN values is exact. Time stamps are the POSIX seconds that
  \<^verbatim>\<open>convert_time\<close> (\<^verbatim>\<open>iso8601.parse_date\<close> followed by \<^verbatim>\<open>datetime.timestamp\<close>)
  yields for the date strings of the remote service.
\<close>

datatype error =
    KeyError string
  | IndexError
  | AssertionError
  | ValueError
  | UnboundLocalError string

datatype pyfloat = Val real | NaN

fun fadd :: "pyfloat \<Rightarrow> pyfloat \<Rightarrow> pyfloat" where
  "fadd (Val x) (Val y) = Val (x + y)"
| "fadd _ _ = NaN"

fun fmul :: "pyfloat \<Rightarrow> pyfloat \<Rightarrow> pyfloat" where
  "fmul (Val x) (Val y) = Val (x * y)"
| "fmul _ _ = NaN"

text \<open>Division by a non-zero constant, as in \<^verbatim>\<open>x/3600\<close>.\<close>

fun fdiv :: "pyfloat \<Rightarrow> real \<Rightarrow> pyfloat" where
  "fdiv (Val x) c = Val (x / c)"
| "fdiv NaN c = NaN"

text \<open>\<^verbatim>\<open>numpy\<close>'s maximum of two floats: NaN wins.\<close>

fun fmax :: "pyfloat \<Rightarrow> pyfloat \<Rightarrow> pyfloat" where
  "fmax (Val x) (Val y) = Val (max x y)"
| "fmax _ _ = NaN"

text \<open>The comparison \<^verbatim>\<open>x <= y\<close> of two floats: false as soon as one is NaN.\<close>

fun fle :: "pyfloat \<Rightarrow> pyfloat \<Rightarrow> bool" where
  "fle (Val x) (Val y) = (x \<le> y)"
| "fle _ _ = False"

definition np_sum :: "pyfloat list \<Rightarrow> pyfloat" where
  "np_sum xs = foldl fadd (Val 0) xs"

text \<open>\<^verbatim>\<open>np.max\<close> of an empty sequence raises \<^verbatim>\<open>ValueError\<close>.\<close>

definition np_max :: "pyfloat list \<Rightarrow> error + pyfloat" where
  "np_max xs = (case xs of [] \<Rightarrow> Inl ValueError | x # ys \<Rightarrow> Inr (foldl fmax x ys))"

text \<open>\<^verbatim>\<open>s.rsplit(sep)[-1]\<close>: what follows the last separator, or all of \<open>s\<close>.\<close>

definition rsplit_last :: "char \<Rightarrow> string \<Rightarrow> string" where
  "rsplit_last sep s = rev (takeWhile (\<lambda>c. c \<noteq> sep) (rev s))"

text \<open>\<^verbatim>\<open>sep.join(xs)\<close>.\<close>

fun join :: "string \<Rightarrow> string list \<Rightarrow> string" where
  "join sep [] = []"
| "join sep [x] = x"
| "join sep (x # y # ys) = x @ sep @ join sep (y # ys)"

text \<open>A list comprehension whose element expression can raise: the first failure wins.\<close>

fun mapM :: "('a \<Rightarrow> error + 'b) \<Rightarrow> 'a list \<Rightarrow> error + 'b list" where
  "mapM f [] = Inr []"
| "mapM f (x # xs) =
     (case f x of Inl e \<Rightarrow> Inl e
      | Inr y \<Rightarrow> (case mapM f xs of Inl e \<Rightarrow> Inl e | Inr ys \<Rightarrow> Inr (y # ys)))"

text \<open>A dict literal: the items are stored from left to right, a repeated key is overwritten.\<close>

definition dict_literal :: "('k \<times> 'v) list \<Rightarrow> ('k \<times> 'v) list" where
  "dict_literal items = foldl (\<lambda>d (k, v). AList.update k v d) [] items"

text \<open>\<^verbatim>\<open>d[k]\<close>.\<close>

definition getitem :: "(string \<times> 'v) list \<Rightarrow> string \<Rightarrow> error + 'v" where
  "getitem d k = (case map_of d k of None \<Rightarrow> Inl (KeyError k) | Some v \<Rightarrow> Inr v)"

section \<open>Execution metadata\<close>

text \<open>
  What \<^verbatim>\<open>workflow_time\<close> reads of a workflow or of an attempt: the key \<^verbatim>\<open>start\<close>
  and the optional key \<^verbatim>\<open>end\<close>.
\<close>

record timed =
  start_ts :: real
  end_ts :: "real option"

record attempt = timed +
  machineType :: string
  preemptible :: bool
  executionStatus :: string
  jobId :: string

record metadata = timed +
  workflowName :: string
  calls :: "(string \<times> attempt list) list"

definition workflow_time :: "'a timed_scheme \<Rightarrow> pyfloat" where
  "workflow_time workflow =
     (case end_ts workflow of
        Some e \<Rightarrow> Val (e - start_ts workflow)
      | None \<Rightarrow> NaN)"

section \<open>VM costs\<close>

definition preemptible_items :: "(string \<times> real) list" where
  "preemptible_items =
    [(''n1-standard-1'', 0.0100),
     (''n1-standard-2'', 0.0200),
     (''n1-standard-4'', 0.0400),
     (''n1-standard-8'', 0.0800),
     (''n1-standard-16'', 0.1600),
     (''n1-standard-32'', 0.3200),
     (''n1-standard-32'', 0.6400),
     (''n1-highmem-2'', 0.0250),
     (''n1-highmem-4'', 0.0500),
     (''n1-highmem-8'', 0.1000),
     (''n1-highmem-16'', 0.2000),
     (''n1-highmem-32'', 0.4000),
     (''n1-highmem-64'', 0.8000)]"

definition standard_items :: "(string \<times> real) list" where
  "standard_items =
    [(''n1-standard-1'', 0.0475),
     (''n1-standard-2'', 0.0950),
     (''n1-standard-4'', 0.1900),
     (''n1-standard-8'', 0.3800),
     (''n1-standard-16'', 0.7600),
     (''n1-standard-32'', 1.5200),
     (''n1-standard-64'', 3.0400),
     (''n1-highmem-2'', 0.1184),
     (''n1-highmem-4'', 0.2368),
     (''n1-highmem-8'', 0.4736),
     (''n1-highmem-16'', 0.9472),
     (''n1-highmem-32'', 1.8944),
     (''n1-highmem-64'', 3.7888)]"

definition preemptible_dict :: "(string \<times> real) list" where
  "preemptible_dict = dict_literal preemptible_items"

definition standard_dict :: "(string \<times> real) list" where
  "standard_dict = dict_literal standard_items"

definition get_vm_cost :: "string \<Rightarrow> bool \<Rightarrow> error + real" where
  "get_vm_cost machine_type is_preemptible =
     (if is_preemptible then getitem preemptible_dict machine_type
      else getitem standard_dict machine_type)"

section \<open>Cost and timing of one task of one workflow\<close>

text \<open>
  A row of a task's table. A cell that the code never assigns keeps the NaN the
  empty \<^verbatim>\<open>DataFrame\<close> was created with: \<open>None\<close> in \<open>attempts\<close> and
  \<open>max_preempt_time_h\<close>. The column \<^verbatim>\<open>start_time\<close> holds the instant that the
  code formats as hour and minute in the workspace's time zone.
\<close>

record task_row =
  time_h :: pyfloat
  total_time_h :: pyfloat
  max_preempt_time_h :: "pyfloat option"
  machine_type :: string
  attempts :: "nat option"
  start_time :: real
  est_cost :: pyfloat
  job_ids :: string

text \<open>\<^verbatim>\<open>cell > 1\<close> on the \<^verbatim>\<open>attempts\<close> cell: false on the NaN of an unset cell.\<close>

definition gt1 :: "nat option \<Rightarrow> bool" where
  "gt1 c = (case c of None \<Rightarrow> False | Some n \<Rightarrow> 1 < n)"

text \<open>One summand of \<^verbatim>\<open>est_cost\<close>: \<^verbatim>\<open>get_vm_cost(m,p)*h\<close>.\<close>

fun attempt_cost :: "pyfloat \<times> string \<times> bool \<Rightarrow> error + pyfloat" where
  "attempt_cost (h, m, p) =
     (case get_vm_cost m p of Inl e \<Rightarrow> Inl e | Inr c \<Rightarrow> Inr (fmul (Val c) h))"

text \<open>
  The cell \<^verbatim>\<open>max_preempt_time_h\<close>, assigned only under \<^verbatim>\<open>attempts > 1\<close>:
  \<^verbatim>\<open>np.max\<close> over the attempts before the last, divided by 3600.
\<close>

definition max_preempt_cell :: "nat option \<Rightarrow> attempt list \<Rightarrow> error + pyfloat option" where
  "max_preempt_cell the_attempts task_attempts =
     (if gt1 the_attempts
      then (case np_max (map workflow_time (butlast task_attempts)) of
              Inl e \<Rightarrow> Inl e
            | Inr m \<Rightarrow> Inr (Some (fdiv m 3600)))
      else Inr None)"

text \<open>
  The body of the loop over \<^verbatim>\<open>workflow_status_df.index\<close> in \<^verbatim>\<open>get_stats\<close>,
  for the attempts \<^verbatim>\<open>metadata_dict[i]['calls'][t]\<close> of one task. The first
  statement reads the last attempt, which raises on an empty list.
\<close>

definition get_stats_row :: "attempt list \<Rightarrow> error + task_row" where
  "get_stats_row task_attempts =
     (if task_attempts = [] then Inl IndexError
      else
        let exec_times_h = map (\<lambda>t_attempt. fdiv (workflow_time t_attempt) 3600) task_attempts;
            was_preemptible = map preemptible task_attempts;
            the_attempts = (if hd was_preemptible then Some (length task_attempts) else None);
            machine_types = map (\<lambda>j. rsplit_last CHR ''/'' (machineType j)) task_attempts
        in case max_preempt_cell the_attempts task_attempts of
             Inl e \<Rightarrow> Inl e
           | Inr the_max \<Rightarrow>
              (case mapM attempt_cost (zip exec_times_h (zip machine_types was_preemptible)) of
                 Inl e \<Rightarrow> Inl e
               | Inr costs \<Rightarrow>
                   Inr \<lparr>time_h = fdiv (workflow_time (last task_attempts)) 3600,
                        total_time_h = np_sum exec_times_h,
                        max_preempt_time_h = the_max,
                        machine_type = rsplit_last CHR ''/'' (machineType (last task_attempts)),
                        attempts = the_attempts,
                        start_time = start_ts (last task_attempts),
                        est_cost = np_sum costs,
                        job_ids = join '','' (map jobId task_attempts)\<rparr>))"

section \<open>Remote service\<close>

text \<open>
  A reply of the remote service: its HTTP status and its decoded body. The calls
  are reads, so a call is a function of its arguments.
\<close>

record 'a response =
  status_code :: nat
  json :: 'a

text \<open>An element of \<^verbatim>\<open>list_submissions\<close>.\<close>

record submission =
  submissionId :: string
  methodConfigurationName :: string
  submissionDate :: real
  entityType :: string
  entityName :: string

text \<open>
  An element of \<^verbatim>\<open>r['workflows']\<close> of \<^verbatim>\<open>get_submission\<close>; \<open>workflowEntity\<close> is
  the entity name under the optional key \<^verbatim>\<open>workflowEntity\<close>.
\<close>

record workflow_summary =
  wf_status :: string
  workflowId :: string
  workflowEntity :: "string option"

section \<open>Status reducer\<close>

record status_record =
  status :: string
  timestamp :: real
  submission_id :: string
  configuration :: string
  workflow_id :: string

type_synonym sample_dict = "(string \<times> status_record) list"

text \<open>\<^verbatim>\<open>a in b\<close> on strings.\<close>

fun contains :: "string \<Rightarrow> string \<Rightarrow> bool" where
  "contains [] a = (a = [])"
| "contains (c # b) a = (take (length a) (c # b) = a \<or> contains b a)"

text \<open>\<^verbatim>\<open>sample_id not in sample_dict or sample_dict[sample_id]['timestamp']<ts\<close>.\<close>

definition is_newer :: "sample_dict \<Rightarrow> string \<Rightarrow> real \<Rightarrow> bool" where
  "is_newer sample_dict sample_id ts =
     (case map_of sample_dict sample_id of
        None \<Rightarrow> True
      | Some r \<Rightarrow> timestamp r < ts)"

definition record_of :: "submission \<Rightarrow> workflow_summary \<Rightarrow> status_record" where
  "record_of s w =
     \<lparr>status = wf_status w, timestamp = submissionDate s, submission_id = submissionId s,
      configuration = methodConfigurationName s, workflow_id = workflowId w\<rparr>"

text \<open>
  The branch taken for a sample, a participant and a sample set with one
  workflow: \<^verbatim>\<open>r['workflows'][0]\<close> is read only when the record is stored.
\<close>

definition store_root :: "sample_dict \<Rightarrow> submission \<Rightarrow> workflow_summary list \<Rightarrow> error + sample_dict" where
  "store_root sample_dict s workflows =
     (if is_newer sample_dict (entityName s) (submissionDate s)
      then (case workflows of
              [] \<Rightarrow> Inl IndexError
            | w # _ \<Rightarrow> Inr (AList.update (entityName s) (record_of s w) sample_dict))
      else Inr sample_dict)"

text \<open>The loop over the workflows of a sample set: one entity for each workflow.\<close>

fun store_members :: "sample_dict \<Rightarrow> submission \<Rightarrow> workflow_summary list \<Rightarrow> error + sample_dict" where
  "store_members sample_dict s [] = Inr sample_dict"
| "store_members sample_dict s (w # ws) =
     (case workflowEntity w of
        None \<Rightarrow> Inl (KeyError ''workflowEntity'')
      | Some sample_id \<Rightarrow>
          store_members
            (if is_newer sample_dict sample_id (submissionDate s)
             then AList.update sample_id (record_of s w) sample_dict
             else sample_dict) s ws)"

text \<open>The body of the loop over the submissions.\<close>

definition reduce_submission ::
    "(string \<Rightarrow> workflow_summary list response) \<Rightarrow> sample_dict \<Rightarrow> submission \<Rightarrow> error + sample_dict" where
  "reduce_submission get_submission sample_dict s =
     (let r = get_submission (submissionId s) in
      if status_code r \<noteq> 200 then Inl AssertionError
      else if entityType s = ''sample'' then store_root sample_dict s (json r)
      else if entityType s = ''sample_set'' then
        (if length (json r) = 1 then store_root sample_dict s (json r)
         else store_members sample_dict s (json r))
      else if entityType s = ''participant'' then store_root sample_dict s (json r)
      else Inr sample_dict)"

fun reduce_submissions ::
    "(string \<Rightarrow> workflow_summary list response) \<Rightarrow> sample_dict \<Rightarrow> submission list \<Rightarrow> error + sample_dict" where
  "reduce_submissions get_submission sample_dict [] = Inr sample_dict"
| "reduce_submissions get_submission sample_dict (s # ss) =
     (case reduce_submission get_submission sample_dict s of
        Inl e \<Rightarrow> Inl e
      | Inr d \<Rightarrow> reduce_submissions get_submission d ss)"

text \<open>
  The table that \<^verbatim>\<open>get_submission_status\<close> returns, from the submissions already
  filtered by configuration. An empty \<^verbatim>\<open>sample_dict\<close> gives a frame without
  columns, and \<^verbatim>\<open>status_df['status']\<close> raises.
\<close>

definition status_table ::
    "(string \<Rightarrow> workflow_summary list response) \<Rightarrow> submission list \<Rightarrow> error + sample_dict" where
  "status_table get_submission submissions =
     (case reduce_submissions get_submission [] submissions of
        Inl e \<Rightarrow> Inl e
      | Inr sample_dict \<Rightarrow>
          if sample_dict = [] then Inl (KeyError ''status'') else Inr sample_dict)"

definition get_submission_status ::
    "submission list response \<Rightarrow> (string \<Rightarrow> workflow_summary list response) \<Rightarrow> string
      \<Rightarrow> error + sample_dict" where
  "get_submission_status list_submissions get_submission config =
     (if status_code list_submissions \<noteq> 200 then Inl AssertionError
      else status_table get_submission
             (filter (\<lambda>s. contains (methodConfigurationName s) config) (json list_submissions)))"

section \<open>Cost and timing aggregator\<close>

text \<open>
  The first loop of \<^verbatim>\<open>get_stats\<close>: one call of \<^verbatim>\<open>get_workflow_metadata\<close> for
  each row, an assertion on its status, and the body stored under the row's index.
\<close>

fun fetch_metadata ::
    "(string \<Rightarrow> string \<Rightarrow> metadata response) \<Rightarrow> (string \<times> metadata) list \<Rightarrow> sample_dict
      \<Rightarrow> error + (string \<times> metadata) list" where
  "fetch_metadata get_workflow_metadata metadata_dict [] = Inr metadata_dict"
| "fetch_metadata get_workflow_metadata metadata_dict ((i, row) # rows) =
     (let m = get_workflow_metadata (submission_id row) (workflow_id row) in
      if status_code m \<noteq> 200 then Inl AssertionError
      else fetch_metadata get_workflow_metadata (AList.update i (json m) metadata_dict) rows)"

text \<open>\<^verbatim>\<open>np.unique\<close> and \<^verbatim>\<open>np.sort\<close> on strings: code point order.\<close>

definition np_unique :: "string list \<Rightarrow> string list" where
  "np_unique xs = sort (remdups xs)"

text \<open>
  \<^verbatim>\<open>status_df[workflows==w]\<close>: the rows at the positions where the mask holds;
  a mask of another length than the frame raises.
\<close>

definition mask_rows :: "sample_dict \<Rightarrow> bool list \<Rightarrow> error + sample_dict" where
  "mask_rows status_df keep =
     (if length keep \<noteq> length status_df then Inl ValueError
      else Inr (map fst (filter snd (zip status_df keep))))"

text \<open>The table of one task: a row for each entity of the group.\<close>

definition task_table ::
    "(string \<times> metadata) list \<Rightarrow> string list \<Rightarrow> string \<Rightarrow> error + (string \<times> task_row) list" where
  "task_table metadata_dict idx t =
     mapM (\<lambda>i. case getitem metadata_dict i of
                  Inl e \<Rightarrow> Inl e
                | Inr md \<Rightarrow>
                   (case getitem (calls md) t of
                      Inl e \<Rightarrow> Inl e
                    | Inr task_attempts \<Rightarrow>
                       (case get_stats_row task_attempts of
                          Inl e \<Rightarrow> Inl e
                        | Inr r \<Rightarrow> Inr (i, r)))) idx"

text \<open>The loop over the tasks: \<^verbatim>\<open>task_dfs\<close> is keyed by the bare task name.\<close>

fun task_tables ::
    "(string \<times> metadata) list \<Rightarrow> string list \<Rightarrow> (string \<times> (string \<times> task_row) list) list
      \<Rightarrow> string list \<Rightarrow> error + (string \<times> (string \<times> task_row) list) list" where
  "task_tables metadata_dict idx task_dfs [] = Inr task_dfs"
| "task_tables metadata_dict idx task_dfs (t # ts) =
     (case task_table metadata_dict idx t of
        Inl e \<Rightarrow> Inl e
      | Inr df \<Rightarrow>
          task_tables metadata_dict idx (AList.update (rsplit_last CHR ''.'' t) df task_dfs) ts)"

text \<open>
  The body of the loop over the workflow names: the group of rows with that name,
  the sorted task names of the group's first workflow, and the task tables. The
  summary columns are then computed from \<^verbatim>\<open>pd.concat\<close> of one column per task,
  which raises \<^verbatim>\<open>ValueError\<close> when there is no task.
\<close>

definition workflow_group ::
    "sample_dict \<Rightarrow> (string \<times> metadata) list \<Rightarrow> string list \<Rightarrow> string
      \<Rightarrow> error + (sample_dict \<times> (string \<times> (string \<times> task_row) list) list)" where
  "workflow_group status_df metadata_dict workflows w =
     (case mask_rows status_df (map (\<lambda>v. v = w) workflows) of
        Inl e \<Rightarrow> Inl e
      | Inr workflow_status_df \<Rightarrow>
         (case workflow_status_df of
            [] \<Rightarrow> Inl IndexError
          | (i0, _) # _ \<Rightarrow>
             (case getitem metadata_dict i0 of
                Inl e \<Rightarrow> Inl e
              | Inr md0 \<Rightarrow>
                 (let tasks = sort (map fst (calls md0)) in
                  case task_tables metadata_dict (map fst workflow_status_df) [] tasks of
                    Inl e \<Rightarrow> Inl e
                  | Inr task_dfs \<Rightarrow>
                      if tasks = [] then Inl ValueError
                      else Inr (workflow_status_df, task_dfs)))))"

text \<open>
  The loop over \<^verbatim>\<open>np.unique(workflows)\<close>. The variables that the function returns
  are those of the last iteration; \<open>None\<close> stands for the unbound variables before
  the first one.
\<close>

fun workflow_groups ::
    "sample_dict \<Rightarrow> (string \<times> metadata) list \<Rightarrow> string list
      \<Rightarrow> (sample_dict \<times> (string \<times> (string \<times> task_row) list) list) option \<Rightarrow> string list
      \<Rightarrow> error + (sample_dict \<times> (string \<times> (string \<times> task_row) list) list) option" where
  "workflow_groups status_df metadata_dict workflows result [] = Inr result"
| "workflow_groups status_df metadata_dict workflows result (w # ws) =
     (case workflow_group status_df metadata_dict workflows w of
        Inl e \<Rightarrow> Inl e
      | Inr g \<Rightarrow> workflow_groups status_df metadata_dict workflows (Some g) ws)"

text \<open>
  \<^verbatim>\<open>get_stats\<close>. The result is the rows of \<^verbatim>\<open>workflow_status_df\<close> and
  \<^verbatim>\<open>task_dfs\<close> of the last workflow name. The values of the four summary columns
  that the code adds to \<^verbatim>\<open>workflow_status_df\<close> (\<^verbatim>\<open>est_cost\<close>, \<^verbatim>\<open>time_h\<close>,
  \<^verbatim>\<open>cpu_hours\<close>, \<^verbatim>\<open>start_time\<close>) are not part of the result. Computing them
  raises only on an empty task list: the core count is read off the machine type
  of a row, which \<^verbatim>\<open>get_vm_cost\<close> has priced, and every priced type ends in a number.
\<close>

definition get_stats ::
    "(string \<Rightarrow> string \<Rightarrow> metadata response) \<Rightarrow> sample_dict
      \<Rightarrow> error + (sample_dict \<times> (string \<times> (string \<times> task_row) list) list)" where
  "get_stats get_workflow_metadata status_df0 =
     (let status_df = filter (\<lambda>(i, row). status row = ''Succeeded'') status_df0 in
      case fetch_metadata get_workflow_metadata [] status_df of
        Inl e \<Rightarrow> Inl e
      | Inr metadata_dict \<Rightarrow>
         (let workflows = map (\<lambda>(k, md). workflowName md) metadata_dict in
          case workflow_groups status_df metadata_dict workflows None (np_unique workflows) of
            Inl e \<Rightarrow> Inl e
          | Inr None \<Rightarrow> Inl (UnboundLocalError ''workflow_status_df'')
          | Inr (Some g) \<Rightarrow> Inr g))"

section \<open>Failure diagnostics view\<close>

definition status_code_dict :: "(string \<times> int) list" where
  "status_code_dict = dict_literal [(''Running'', 1), (''Done'', 2), (''Failed'', -1)]"

text \<open>
  One cell of the state matrix:
  \<^verbatim>\<open>status_code[metadata['calls'][t][-1]['executionStatus']] if t in metadata['calls'] else 0\<close>.
\<close>

definition state_cell :: "metadata \<Rightarrow> string \<Rightarrow> error + int" where
  "state_cell md t =
     (case map_of (calls md) t of
        None \<Rightarrow> Inr 0
      | Some task_attempts \<Rightarrow>
          if task_attempts = [] then Inl IndexError
          else getitem status_code_dict (executionStatus (last task_attempts)))"

text \<open>The loop over \<^verbatim>\<open>fail_idx\<close>: a fetch, an assertion and a row of cells.\<close>

fun state_rows ::
    "(string \<Rightarrow> string \<Rightarrow> metadata response) \<Rightarrow> string list \<Rightarrow> sample_dict
      \<Rightarrow> error + (string \<times> int list) list" where
  "state_rows get_workflow_metadata workflow_tasks [] = Inr []"
| "state_rows get_workflow_metadata workflow_tasks ((i, row) # rows) =
     (let m = get_workflow_metadata (submission_id row) (workflow_id row) in
      if status_code m \<noteq> 200 then Inl AssertionError
      else case mapM (state_cell (json m)) workflow_tasks of
             Inl e \<Rightarrow> Inl e
           | Inr cells \<Rightarrow>
              (case state_rows get_workflow_metadata workflow_tasks rows of
                 Inl e \<Rightarrow> Inl e
               | Inr rest \<Rightarrow> Inr ((i, cells) # rest)))"

text \<open>\<^verbatim>\<open>i.split('.')[1]\<close>: the second component, an error when there is no dot.\<close>

definition split_second :: "string \<Rightarrow> error + string" where
  "split_second s =
     (case dropWhile (\<lambda>c. c \<noteq> CHR ''.'') s of
        [] \<Rightarrow> Inl IndexError
      | _ # rest \<Rightarrow> Inr (takeWhile (\<lambda>c. c \<noteq> CHR ''.'') rest))"

record state_df =
  columns :: "string list"
  state :: "(string \<times> int list) list"
  ids :: "(string \<times> string \<times> string) list"

text \<open>
  \<^verbatim>\<open>display_status\<close> from the status table on: the task names of the first row's
  workflow, the rows of the entities that did not succeed, the renamed columns and
  the two identifier columns.
\<close>

definition state_matrix ::
    "(string \<Rightarrow> string \<Rightarrow> metadata response) \<Rightarrow> sample_dict \<Rightarrow> error + state_df" where
  "state_matrix get_workflow_metadata status_df =
     (case status_df of
        [] \<Rightarrow> Inl IndexError
      | (_, row0) # _ \<Rightarrow>
         (let m = get_workflow_metadata (submission_id row0) (workflow_id row0) in
          if status_code m \<noteq> 200 then Inl AssertionError
          else
            let workflow_tasks = map fst (calls (json m));
                fail_idx = filter (\<lambda>(i, row). status row \<noteq> ''Succeeded'') status_df
            in case state_rows get_workflow_metadata workflow_tasks fail_idx of
                 Inl e \<Rightarrow> Inl e
               | Inr rows \<Rightarrow>
                  (case mapM split_second workflow_tasks of
                     Inl e \<Rightarrow> Inl e
                   | Inr names \<Rightarrow>
                      Inr \<lparr>columns = names, state = rows,
                           ids = map (\<lambda>(i, row). (i, workflow_id row, submission_id row)) fail_idx\<rparr>)))"

definition display_status ::
    "submission list response \<Rightarrow> (string \<Rightarrow> workflow_summary list response)
      \<Rightarrow> (string \<Rightarrow> string \<Rightarrow> metadata response) \<Rightarrow> string \<Rightarrow> error + state_df" where
  "display_status list_submissions get_submission get_workflow_metadata config =
     (case get_submission_status list_submissions get_submission config of
        Inl e \<Rightarrow> Inl e
      | Inr status_df \<Rightarrow> state_matrix get_workflow_metadata status_df)"

section \<open>Notions used in the statements\<close>

subsection \<open>Attempts\<close>

text \<open>An attempt is priced when \<^verbatim>\<open>get_vm_cost\<close> knows its machine type in its billing mode.\<close>

definition priced :: "attempt \<Rightarrow> bool" where
  "priced a =
     (case get_vm_cost (rsplit_last CHR ''/'' (machineType a)) (preemptible a) of
        Inl _ \<Rightarrow> False
      | Inr _ \<Rightarrow> True)"

definition price :: "attempt \<Rightarrow> real" where
  "price a =
     (case get_vm_cost (rsplit_last CHR ''/'' (machineType a)) (preemptible a) of
        Inl _ \<Rightarrow> 0
      | Inr c \<Rightarrow> c)"

text \<open>What one attempt adds to \<^verbatim>\<open>est_cost\<close>.\<close>

definition billed :: "attempt \<Rightarrow> pyfloat" where
  "billed a = fmul (Val (price a)) (fdiv (workflow_time a) 3600)"

text \<open>A record has ended when it carries the key \<^verbatim>\<open>end\<close>; then it has an elapsed time.\<close>

definition ended :: "'a timed_scheme \<Rightarrow> bool" where
  "ended w = (case end_ts w of Some e \<Rightarrow> True | None \<Rightarrow> False)"

definition elapsed :: "'a timed_scheme \<Rightarrow> real" where
  "elapsed w = (case end_ts w of Some e \<Rightarrow> e - start_ts w | None \<Rightarrow> 0)"

subsection \<open>State matrix\<close>



subsection \<open>Submissions\<close>

text \<open>The submissions whose configuration name contains the requested one.\<close>

definition matching :: "string \<Rightarrow> submission list \<Rightarrow> submission list" where
  "matching config submissions =
     filter (\<lambda>s. contains (methodConfigurationName s) config) submissions"

text \<open>
  The (entity id, record) pairs that one submission yields, in the order in which
  the loop body meets them: one for each workflow of a sample set with several
  workflows, and otherwise one for the root entity, from the first workflow.
\<close>

fun member_pairs :: "submission \<Rightarrow> workflow_summary list \<Rightarrow> (string \<times> status_record) list" where
  "member_pairs s [] = []"
| "member_pairs s (w # ws) =
     (case workflowEntity w of
        None \<Rightarrow> member_pairs s ws
      | Some n \<Rightarrow> (n, record_of s w) # member_pairs s ws)"

definition derived ::
    "(string \<Rightarrow> workflow_summary list response) \<Rightarrow> submission \<Rightarrow> (string \<times> status_record) list" where
  "derived get_submission s =
     (let workflows = json (get_submission (submissionId s)) in
      if entityType s = ''sample_set'' \<and> length workflows \<noteq> 1
      then member_pairs s workflows
      else if entityType s = ''sample'' \<or> entityType s = ''sample_set''
              \<or> entityType s = ''participant''
      then (case workflows of [] \<Rightarrow> [] | w # _ \<Rightarrow> [(entityName s, record_of s w)])
      else [])"

text \<open>A submission touches the entities for which it yields a pair.\<close>

definition touches ::
    "(string \<Rightarrow> workflow_summary list response) \<Rightarrow> submission \<Rightarrow> string \<Rightarrow> bool" where
  "touches get_submission s e = (e \<in> fst ` set (derived get_submission s))"

text \<open>The guarded assignment that every branch of the loop body performs.\<close>

definition keep_newer :: "sample_dict \<Rightarrow> string \<times> status_record \<Rightarrow> sample_dict" where
  "keep_newer sample_dict p =
     (if is_newer sample_dict (fst p) (timestamp (snd p))
      then AList.update (fst p) (snd p) sample_dict
      else sample_dict)"

text \<open>Its effect on the record of one entity.\<close>

fun pick :: "status_record option \<Rightarrow> status_record \<Rightarrow> status_record option" where
  "pick None r = Some r"
| "pick (Some r0) r = (if timestamp r0 < timestamp r then Some r else Some r0)"

text \<open>The records that a submission yields for one entity, and what they do to a table.\<close>

definition block ::
    "(string \<Rightarrow> workflow_summary list response) \<Rightarrow> submission \<Rightarrow> string \<Rightarrow> status_record list" where
  "block get_submission s e = map snd (filter (\<lambda>p. fst p = e) (derived get_submission s))"

definition absorb ::
    "(string \<Rightarrow> workflow_summary list response) \<Rightarrow> submission
      \<Rightarrow> (string \<Rightarrow> status_record option) \<Rightarrow> (string \<Rightarrow> status_record option)" where
  "absorb get_submission s m = (\<lambda>e. foldl pick (m e) (block get_submission s e))"

text \<open>
  A reply to \<^verbatim>\<open>get_submission\<close> on which the loop body cannot raise: status 200,
  an entity for every workflow of a sample set with several workflows, and a
  first workflow in the other recognised cases.
\<close>

definition well_formed ::
    "(string \<Rightarrow> workflow_summary list response) \<Rightarrow> submission \<Rightarrow> bool" where
  "well_formed get_submission s =
     (let r = get_submission (submissionId s) in
      status_code r = 200 \<and>
      (if entityType s = ''sample_set'' \<and> length (json r) \<noteq> 1
       then list_all (\<lambda>w. workflowEntity w \<noteq> None) (json r)
       else if entityType s = ''sample'' \<or> entityType s = ''sample_set''
               \<or> entityType s = ''participant''
       then json r \<noteq> []
       else True))"

section \<open>Sample inputs\<close>

text \<open>Three preemptible attempts of 0.4 h, 0.05 h and 1.2 h.\<close>

definition ex_preempted :: "attempt list" where
  "ex_preempted =
     [\<lparr>start_ts = 0, end_ts = Some 1440, machineType = ''us-central1-b/n1-standard-4'',
       preemptible = True, executionStatus = ''Failed'', jobId = ''a''\<rparr>,
      \<lparr>start_ts = 2000, end_ts = Some 2180, machineType = ''us-central1-b/n1-standard-4'',
       preemptible = True, executionStatus = ''Failed'', jobId = ''b''\<rparr>,
      \<lparr>start_ts = 3000, end_ts = Some 7320, machineType = ''us-central1-b/n1-standard-4'',
       preemptible = True, executionStatus = ''Done'', jobId = ''c''\<rparr>]"




text \<open>An attempt that is still \<^verbatim>\<open>Running\<close>, followed by the attempt that finished the task.\<close>

definition ex_running :: "attempt list" where
  "ex_running =
     [\<lparr>start_ts = 0, end_ts = Some 1800, machineType = ''n1-standard-1'',
       preemptible = True, executionStatus = ''Running'', jobId = ''a''\<rparr>,
      \<lparr>start_ts = 1800, end_ts = Some 5400, machineType = ''n1-standard-1'',
       preemptible = True, executionStatus = ''Done'', jobId = ''b''\<rparr>]"

text \<open>An attempt without the key \<^verbatim>\<open>end\<close>.\<close>

definition ex_open :: attempt where
  "ex_open =
     \<lparr>start_ts = 100, end_ts = None, machineType = ''n1-highmem-2'',
      preemptible = False, executionStatus = ''Running'', jobId = ''r''\<rparr>"

text \<open>
  A remote service with three workflows: \<open>w2\<close> ran its task to the end, the last
  attempt of \<open>w3\<close> carries the status \<^verbatim>\<open>Preempted\<close>, and the metadata of every
  other workflow cannot be fetched.
\<close>

definition ex_done :: attempt where
  "ex_done =
     \<lparr>start_ts = 0, end_ts = Some 3600, machineType = ''n1-standard-1'',
      preemptible = True, executionStatus = ''Done'', jobId = ''j''\<rparr>"

definition ex_md :: "string \<Rightarrow> metadata" where
  "ex_md st =
     \<lparr>start_ts = 0, end_ts = Some 7200, workflowName = ''wf'',
      calls = [(''wf.align'', [ex_done\<lparr>executionStatus := st\<rparr>])]\<rparr>"

definition ex_service :: "string \<Rightarrow> string \<Rightarrow> metadata response" where
  "ex_service sid wid =
     (if wid = ''w2'' then \<lparr>status_code = 200, json = ex_md ''Done''\<rparr>
      else if wid = ''w3'' then \<lparr>status_code = 200, json = ex_md ''Preempted''\<rparr>
      else \<lparr>status_code = 500,
             json = \<lparr>start_ts = 0, end_ts = None, workflowName = [], calls = []\<rparr>\<rparr>)"

definition ex_row :: "string \<Rightarrow> string \<Rightarrow> string \<Rightarrow> status_record" where
  "ex_row st sid wid =
     \<lparr>status = st, timestamp = 1, submission_id = sid, configuration = ''cfg'', workflow_id = wid\<rparr>"

definition ex_status_df :: sample_dict where
  "ex_status_df =
     [(''sample_a'', ex_row ''Succeeded'' ''s1'' ''w1''),
      (''sample_b'', ex_row ''Succeeded'' ''s2'' ''w2'')]"





text \<open>
  A submission service with four submissions: \<open>sub1\<close> failed, \<open>sub2\<close>
  succeeded, \<open>sub3\<close> is running and \<open>sub0\<close> has no workflow.
\<close>

definition ex_sub :: "string \<Rightarrow> real \<Rightarrow> submission" where
  "ex_sub sid ts =
     \<lparr>submissionId = sid, methodConfigurationName = ''cfg_v1'', submissionDate = ts,
      entityType = ''sample'', entityName = ''sample_a''\<rparr>"

definition ex_submission_service :: "string \<Rightarrow> workflow_summary list response" where
  "ex_submission_service sid =
     (if sid = ''sub1''
      then \<lparr>status_code = 200,
             json = [\<lparr>wf_status = ''Failed'', workflowId = ''wf1'', workflowEntity = None\<rparr>]\<rparr>
      else if sid = ''sub2''
      then \<lparr>status_code = 200,
             json = [\<lparr>wf_status = ''Succeeded'', workflowId = ''wf2'', workflowEntity = None\<rparr>]\<rparr>
      else if sid = ''sub3''
      then \<lparr>status_code = 200,
             json = [\<lparr>wf_status = ''Running'', workflowId = ''wf3'', workflowEntity = None\<rparr>]\<rparr>
      else if sid = ''sub0'' then \<lparr>status_code = 200, json = []\<rparr>
      else \<lparr>status_code = 500, json = []\<rparr>)"

definition ex_record :: "string \<Rightarrow> real \<Rightarrow> string \<Rightarrow> string \<Rightarrow> status_record" where
  "ex_record st ts sid wid =
     \<lparr>status = st, timestamp = ts, submission_id = sid, configuration = ''cfg_v1'',
      workflow_id = wid\<rparr>"

text \<open>The reply of \<^verbatim>\<open>list_submissions\<close> with the failed and then the succeeded submission.\<close>

definition ex_list_submissions :: "submission list response" where
  "ex_list_submissions =
     \<lparr>status_code = 200, json = [ex_sub ''sub1'' 100, ex_sub ''sub2'' 200]\<rparr>"

section \<open>The price lookup\<close>

lemma dict_literal_distinct_aux:
  "distinct (map fst d0) \<Longrightarrow> distinct (map fst (foldl (\<lambda>d (k, v). AList.update k v d) d0 items))"
  by (induction items arbitrary: d0) (auto simp: distinct_update)

lemma distinct_dict_literal: "distinct (map fst (dict_literal items))"
  by (simp add: dict_literal_def dict_literal_distinct_aux)

lemma getitem_member:
  "distinct (map fst d) \<Longrightarrow> (k, v) \<in> set d \<Longrightarrow> getitem d k = Inr v"
  by (simp add: getitem_def)

lemma getitem_absent:
  "k \<notin> fst ` set d \<Longrightarrow> getitem d k = Inl (KeyError k)"
  using map_of_eq_None_iff [of d k] by (simp add: getitem_def)

lemma preemptible_dict_eval:
  "preemptible_dict =
    [(''n1-standard-1'', 0.0100),
     (''n1-standard-2'', 0.0200),
     (''n1-standard-4'', 0.0400),
     (''n1-standard-8'', 0.0800),
     (''n1-standard-16'', 0.1600),
     (''n1-standard-32'', 0.6400),
     (''n1-highmem-2'', 0.0250),
     (''n1-highmem-4'', 0.0500),
     (''n1-highmem-8'', 0.1000),
     (''n1-highmem-16'', 0.2000),
     (''n1-highmem-32'', 0.4000),
     (''n1-highmem-64'', 0.8000)]"
  by (simp add: preemptible_dict_def dict_literal_def preemptible_items_def)

lemma standard_dict_eval: "standard_dict = standard_items"
  by (simp add: standard_dict_def dict_literal_def standard_items_def)

text \<open>
  Claim C4. The price lookup returns, for every key of the selected table, the value
  that the table holds for it, and raises \<^verbatim>\<open>KeyError\<close> (the spec's
  \<open>UnknownMachineType\<close>) for every machine type that the selected table lacks;
  it never answers zero for an unknown type. The tables are the dictionaries that
  Python builds from the two literals, in which a repeated key keeps its last value.
\<close>

theorem get_vm_cost_roundtrip:
  "((k, v) \<in> set (if p then preemptible_dict else standard_dict) \<longrightarrow> get_vm_cost k p = Inr v) \<and>
   (k \<notin> fst ` set (if p then preemptible_dict else standard_dict)
      \<longrightarrow> get_vm_cost k p = Inl (KeyError k))"
  by (auto simp: get_vm_cost_def preemptible_dict_def standard_dict_def
      intro!: getitem_member getitem_absent distinct_dict_literal)

theorem get_vm_cost_roundtrip_witness:
  "(''n1-standard-4'', 0.04) \<in> set (if True then preemptible_dict else standard_dict) \<and>
   get_vm_cost ''n1-standard-4'' True = Inr 0.04 \<and>
   ''n1-standard-64'' \<notin> fst ` set (if True then preemptible_dict else standard_dict) \<and>
   get_vm_cost ''n1-standard-64'' True = Inl (KeyError ''n1-standard-64'')"
  using get_vm_cost_roundtrip [of "''n1-standard-4''" "0.04" True]
    get_vm_cost_roundtrip [of "''n1-standard-64''" 0 True]
  by (simp add: preemptible_dict_eval)

lemma price_nonneg: "get_vm_cost m p = Inr c \<Longrightarrow> 0 \<le> c"
  by (cases p)
    (auto simp: get_vm_cost_def getitem_def preemptible_dict_eval standard_dict_eval
      standard_items_def split: option.splits if_splits)

lemma price_ge0: "0 \<le> price a"
  by (auto simp: price_def price_nonneg split: sum.splits)

section \<open>Floats and comprehensions\<close>

lemma mapM_all_Inr: "(\<And>x. x \<in> set xs \<Longrightarrow> f x = Inr (g x)) \<Longrightarrow> mapM f xs = Inr (map g xs)"
  by (induction xs) auto


lemma mapM_Inl_D: "mapM f xs = Inl e \<Longrightarrow> \<exists>x\<in>set xs. f x = Inl e"
  by (induction xs) (auto split: sum.splits)

lemma foldl_fadd_Val: "foldl fadd (Val a) (map Val rs) = Val (a + sum_list rs)"
  by (induction rs arbitrary: a) (auto simp: algebra_simps)

lemma np_sum_Val: "np_sum (map Val rs) = Val (sum_list rs)"
  by (simp add: np_sum_def foldl_fadd_Val)

lemma foldl_fadd_NaN: "foldl fadd NaN xs = NaN"
  by (induction xs) auto

lemma foldl_fadd_mem_NaN: "NaN \<in> set xs \<Longrightarrow> foldl fadd a xs = NaN"
proof (induction xs arbitrary: a)
  case Nil
  then show ?case by simp
next
  case (Cons x xs)
  show ?case
  proof (cases "x = NaN")
    case True
    have "fadd a NaN = NaN" by (cases a) auto
    with True show ?thesis by (simp add: foldl_fadd_NaN)
  next
    case False
    with Cons show ?thesis by auto
  qed
qed

lemma np_sum_NaN: "NaN \<in> set xs \<Longrightarrow> np_sum xs = NaN"
  by (simp add: np_sum_def foldl_fadd_mem_NaN)






lemma np_max_nonempty: "xs \<noteq> [] \<Longrightarrow> \<exists>m. np_max xs = Inr m"
  by (cases xs) (auto simp: np_max_def)

section \<open>The row of a task\<close>

lemma zip3_map:
  "zip (map f xs) (zip (map g xs) (map h xs)) = map (\<lambda>x. (f x, g x, h x)) xs"
  by (induction xs) auto

lemma attempt_cost_priced:
  "priced a \<Longrightarrow>
   attempt_cost (fdiv (workflow_time a) 3600, rsplit_last CHR ''/'' (machineType a), preemptible a)
     = Inr (billed a)"
  by (auto simp: priced_def price_def billed_def split: sum.splits)

lemma costs_priced:
  assumes "\<forall>a\<in>set xs. priced a"
  shows "mapM attempt_cost
           (zip (map (\<lambda>t. fdiv (workflow_time t) 3600) xs)
              (zip (map (\<lambda>j. rsplit_last CHR ''/'' (machineType j)) xs) (map preemptible xs)))
         = Inr (map billed xs)"
proof -
  have "mapM attempt_cost
          (map (\<lambda>a. (fdiv (workflow_time a) 3600, rsplit_last CHR ''/'' (machineType a), preemptible a)) xs)
        = Inr (map billed xs)"
    using assms by (induction xs) (auto simp: attempt_cost_priced simp del: attempt_cost.simps)
  then show ?thesis by (simp only: zip3_map)
qed


lemma max_preempt_cell_ok:
  "xs \<noteq> [] \<Longrightarrow>
   max_preempt_cell (if b then Some (length xs) else None) xs =
     Inr (if b \<and> 1 < length xs
          then (case np_max (map workflow_time (butlast xs)) of Inr m \<Rightarrow> Some (fdiv m 3600) | Inl _ \<Rightarrow> None)
          else None)"
proof (cases "b \<and> 1 < length xs")
  case True
  then have "map workflow_time (butlast xs) \<noteq> []"
    by (cases xs rule: rev_cases) auto
  from np_max_nonempty [OF this] obtain m where "np_max (map workflow_time (butlast xs)) = Inr m" ..
  with True show ?thesis by (simp add: max_preempt_cell_def gt1_def)
next
  case False
  then show ?thesis by (auto simp: max_preempt_cell_def gt1_def)
qed

lemma get_stats_row_priced:
  assumes "xs \<noteq> []" and "\<forall>a\<in>set xs. priced a"
  shows "get_stats_row xs =
    Inr \<lparr>time_h = fdiv (workflow_time (last xs)) 3600,
         total_time_h = np_sum (map (\<lambda>a. fdiv (workflow_time a) 3600) xs),
         max_preempt_time_h =
           (if preemptible (hd xs) \<and> 1 < length xs
            then (case np_max (map workflow_time (butlast xs)) of
                    Inr m \<Rightarrow> Some (fdiv m 3600) | Inl _ \<Rightarrow> None)
            else None),
         machine_type = rsplit_last CHR ''/'' (machineType (last xs)),
         attempts = (if preemptible (hd xs) then Some (length xs) else None),
         start_time = start_ts (last xs),
         est_cost = np_sum (map billed xs),
         job_ids = join '','' (map jobId xs)\<rparr>"
proof -
  have hd: "hd (map preemptible xs) = preemptible (hd xs)"
    using assms(1) by (simp add: hd_map)
  show ?thesis
    unfolding get_stats_row_def Let_def hd
    using assms(1) by (simp add: max_preempt_cell_ok [OF assms(1)] costs_priced [OF assms(2)])
qed


lemma attempt_cost_Inl:
  "attempt_cost (h, m, p) = Inl e \<Longrightarrow> get_vm_cost m p = Inl e \<and> e = KeyError m"
  by (cases p) (auto simp: get_vm_cost_def getitem_def split: sum.splits option.splits)

lemma get_stats_row_Inl:
  assumes "get_stats_row xs = Inl e" and "xs \<noteq> []"
  shows "\<exists>a\<in>set xs. \<not> priced a \<and> e = KeyError (rsplit_last CHR ''/'' (machineType a))"
proof -
  let ?zs = "zip (map (\<lambda>t. fdiv (workflow_time t) 3600) xs)
              (zip (map (\<lambda>j. rsplit_last CHR ''/'' (machineType j)) xs) (map preemptible xs))"
  have hd: "hd (map preemptible xs) = preemptible (hd xs)"
    using assms(2) by (simp add: hd_map)
  from assms have "mapM attempt_cost ?zs = Inl e"
    unfolding get_stats_row_def Let_def hd
    by (simp add: max_preempt_cell_ok [OF assms(2)] split: sum.splits)
  from mapM_Inl_D [OF this] obtain z where z: "z \<in> set ?zs" "attempt_cost z = Inl e" by blast
  from z(1) obtain a where a: "a \<in> set xs"
    and za: "z = (fdiv (workflow_time a) 3600, rsplit_last CHR ''/'' (machineType a), preemptible a)"
    by (auto simp only: zip3_map set_map)
  from attempt_cost_Inl [OF z(2) [unfolded za]] have
    "get_vm_cost (rsplit_last CHR ''/'' (machineType a)) (preemptible a) = Inl e"
    and "e = KeyError (rsplit_last CHR ''/'' (machineType a))" by simp_all
  then have "\<not> priced a \<and> e = KeyError (rsplit_last CHR ''/'' (machineType a))"
    by (simp add: priced_def)
  with a show ?thesis by blast
qed

lemma workflow_time_ended: "ended w \<Longrightarrow> workflow_time w = Val (elapsed w)"
  by (auto simp: ended_def elapsed_def workflow_time_def split: option.splits)


lemma times_ended:
  "\<forall>a\<in>set xs. ended a \<Longrightarrow>
   map (\<lambda>a. fdiv (workflow_time a) 3600) xs = map Val (map (\<lambda>a. elapsed a / 3600) xs)"
  by (induction xs) (auto simp: workflow_time_ended)

lemma billed_ended:
  "\<forall>a\<in>set xs. ended a \<Longrightarrow>
   map billed xs = map Val (map (\<lambda>a. price a * (elapsed a / 3600)) xs)"
  by (induction xs) (auto simp: workflow_time_ended billed_def)


text \<open>
  Claim C5. Three preemptible attempts of 0.4 h, 0.05 h and 1.2 h on a machine
  billed at 0.04 an hour give \<open>time_h = 1.2\<close>, \<open>total_time_h = 1.65\<close>,
  \<open>attempts = 3\<close>, \<open>max_preempt_time_h = 0.4\<close> and \<open>est_cost = 0.066\<close>,
  whenever the attempts start.
\<close>

theorem preempted_task_scenario:
  "get_stats_row
     [\<lparr>start_ts = s1, end_ts = Some (s1 + 1440), machineType = ''us-central1-b/n1-standard-4'',
       preemptible = True, executionStatus = ''Failed'', jobId = ''a''\<rparr>,
      \<lparr>start_ts = s2, end_ts = Some (s2 + 180), machineType = ''us-central1-b/n1-standard-4'',
       preemptible = True, executionStatus = ''Failed'', jobId = ''b''\<rparr>,
      \<lparr>start_ts = s3, end_ts = Some (s3 + 4320), machineType = ''us-central1-b/n1-standard-4'',
       preemptible = True, executionStatus = ''Done'', jobId = ''c''\<rparr>]
   = Inr \<lparr>time_h = Val 1.2, total_time_h = Val 1.65, max_preempt_time_h = Some (Val 0.4),
          machine_type = ''n1-standard-4'', attempts = Some 3, start_time = s3,
          est_cost = Val 0.066, job_ids = ''a,b,c''\<rparr>"
  by (simp add: get_stats_row_def max_preempt_cell_def gt1_def np_max_def np_sum_def
      workflow_time_def rsplit_last_def get_vm_cost_def getitem_def preemptible_dict_eval)



text \<open>
  Claim C10. \<^verbatim>\<open>workflow_time\<close> of a record without the key \<^verbatim>\<open>end\<close> is NaN, for a
  workflow as for an attempt; and a task whose last attempt has no end, all its
  attempts being priced, gets a row in which \<open>time_h\<close>, \<open>total_time_h\<close> and
  \<open>est_cost\<close> are NaN, not an error. The only error on a task with an attempt is
  the \<^verbatim>\<open>KeyError\<close> of \<^verbatim>\<open>get_vm_cost\<close> for an attempt that is not priced, with
  or without end times.
\<close>

theorem missing_end_gives_nan:
  "(end_ts w = None \<longrightarrow> workflow_time w = NaN) \<and>
   (xs \<noteq> [] \<and> end_ts (last xs) = None \<and> (\<forall>a\<in>set xs. priced a) \<longrightarrow>
      (\<exists>r. get_stats_row xs = Inr r \<and> time_h r = NaN \<and> total_time_h r = NaN \<and> est_cost r = NaN)) \<and>
   (xs \<noteq> [] \<longrightarrow>
      (\<forall>e. get_stats_row xs = Inl e \<longrightarrow>
         (\<exists>a\<in>set xs. \<not> priced a \<and> e = KeyError (rsplit_last CHR ''/'' (machineType a)))))"
proof (intro conjI impI allI)
  assume "end_ts w = None"
  then show "workflow_time w = NaN" by (simp add: workflow_time_def)
next
  assume a: "xs \<noteq> [] \<and> end_ts (last xs) = None \<and> (\<forall>a\<in>set xs. priced a)"
  then have ne: "xs \<noteq> []" and pr: "\<forall>a\<in>set xs. priced a" by simp_all
  from a have nan: "workflow_time (last xs) = NaN" by (simp add: workflow_time_def)
  have mem: "last xs \<in> set xs" using ne by simp
  have "NaN \<in> set (map (\<lambda>a. fdiv (workflow_time a) 3600) xs)"
    using mem nan by (force simp: image_iff)
  then have t: "np_sum (map (\<lambda>a. fdiv (workflow_time a) 3600) xs) = NaN"
    by (rule np_sum_NaN)
  have "billed (last xs) = NaN" by (simp add: billed_def nan)
  then have "NaN \<in> set (map billed xs)"
    using mem by (force simp: image_iff)
  then have c: "np_sum (map billed xs) = NaN" by (rule np_sum_NaN)
  show "\<exists>r. get_stats_row xs = Inr r \<and> time_h r = NaN \<and> total_time_h r = NaN \<and> est_cost r = NaN"
    by (simp add: get_stats_row_priced [OF ne pr] nan t c)
next
  fix e assume "xs \<noteq> []" and "get_stats_row xs = Inl e"
  then show "\<exists>a\<in>set xs. \<not> priced a \<and> e = KeyError (rsplit_last CHR ''/'' (machineType a))"
    by (intro get_stats_row_Inl)
qed

theorem missing_end_gives_nan_witness:
  "end_ts ex_open = None \<and> workflow_time ex_open = NaN \<and>
   end_ts (last [ex_open]) = None \<and> priced ex_open \<and>
   (\<exists>r. get_stats_row [ex_open] = Inr r \<and> time_h r = NaN \<and> total_time_h r = NaN \<and>
        est_cost r = NaN)"
proof -
  have h1: "end_ts ex_open = None" by (simp add: ex_open_def)
  have h2: "\<forall>a\<in>set [ex_open]. priced a"
    by (simp add: ex_open_def priced_def rsplit_last_def get_vm_cost_def getitem_def
        standard_dict_eval standard_items_def)
  show ?thesis
    using h1 h2 missing_end_gives_nan [of ex_open "[ex_open]"] by simp
qed

text \<open>
  Claim C6. When every attempt is priced and ends no earlier than it starts, a
  further such attempt inserted anywhere before the last one lowers neither
  \<open>est_cost\<close> nor \<open>total_time_h\<close> of the task.
\<close>

theorem wasted_attempt_monotone:
  assumes "post \<noteq> []"
    and "\<forall>a\<in>set (pre @ w # post). priced a \<and> (\<exists>e. end_ts a = Some e \<and> start_ts a \<le> e)"
  shows "\<exists>r r'. get_stats_row (pre @ post) = Inr r \<and> get_stats_row (pre @ w # post) = Inr r' \<and>
           fle (est_cost r) (est_cost r') \<and> fle (total_time_h r) (total_time_h r')"
proof -
  from assms(2) have pr': "\<forall>a\<in>set (pre @ w # post). priced a"
    by blast
  from assms(2) have en': "\<forall>a\<in>set (pre @ w # post). ended a"
    by (force simp: ended_def)
  from pr' en' have pr: "\<forall>a\<in>set (pre @ post). priced a"
    and en: "\<forall>a\<in>set (pre @ post). ended a"
    by auto
  have ne: "pre @ post \<noteq> []" and ne': "pre @ w # post \<noteq> []" using assms(1) by simp_all
  from assms(2) have w0: "0 \<le> elapsed w" by (auto simp: elapsed_def)
  then have w1: "0 \<le> price w * (elapsed w / 3600)"
    by (simp add: price_ge0)
  have t: "total_time_h (projr (get_stats_row (pre @ post))) =
             Val (sum_list (map (\<lambda>a. elapsed a / 3600) (pre @ post)))"
    by (simp only: get_stats_row_priced [OF ne pr] times_ended [OF en] np_sum_Val) simp
  have t': "total_time_h (projr (get_stats_row (pre @ w # post))) =
             Val (sum_list (map (\<lambda>a. elapsed a / 3600) (pre @ w # post)))"
    by (simp only: get_stats_row_priced [OF ne' pr'] times_ended [OF en'] np_sum_Val) simp
  have c: "est_cost (projr (get_stats_row (pre @ post))) =
             Val (sum_list (map (\<lambda>a. price a * (elapsed a / 3600)) (pre @ post)))"
    by (simp only: get_stats_row_priced [OF ne pr] billed_ended [OF en] np_sum_Val) simp
  have c': "est_cost (projr (get_stats_row (pre @ w # post))) =
             Val (sum_list (map (\<lambda>a. price a * (elapsed a / 3600)) (pre @ w # post)))"
    by (simp only: get_stats_row_priced [OF ne' pr'] billed_ended [OF en'] np_sum_Val) simp
  obtain r where r: "get_stats_row (pre @ post) = Inr r"
    using get_stats_row_priced [OF ne pr] by blast
  obtain r' where r': "get_stats_row (pre @ w # post) = Inr r'"
    using get_stats_row_priced [OF ne' pr'] by blast
  have "fle (est_cost r) (est_cost r')"
    using c c' w1 by (simp add: r r')
  moreover have "fle (total_time_h r) (total_time_h r')"
    using t t' w0 by (simp add: r r')
  ultimately show ?thesis using r r' by blast
qed

theorem wasted_attempt_monotone_witness:
  "priced (ex_preempted ! 0) \<and> priced (ex_preempted ! 2) \<and>
   end_ts (ex_preempted ! 0) = Some 1440 \<and> end_ts (ex_preempted ! 2) = Some 7320 \<and>
   (\<exists>r r'. get_stats_row ([] @ [ex_preempted ! 2]) = Inr r \<and>
      get_stats_row ([] @ ex_preempted ! 0 # [ex_preempted ! 2]) = Inr r' \<and>
      fle (est_cost r) (est_cost r') \<and> fle (total_time_h r) (total_time_h r'))"
proof -
  have h1: "[ex_preempted ! 2] \<noteq> []" by simp
  have h2: "\<forall>a\<in>set ([] @ ex_preempted ! 0 # [ex_preempted ! 2]).
      priced a \<and> (\<exists>e. end_ts a = Some e \<and> start_ts a \<le> e)"
    by (simp add: ex_preempted_def priced_def rsplit_last_def get_vm_cost_def getitem_def
        preemptible_dict_eval)
  have h3: "priced (ex_preempted ! 0) \<and> priced (ex_preempted ! 2) \<and>
      end_ts (ex_preempted ! 0) = Some 1440 \<and> end_ts (ex_preempted ! 2) = Some 7320"
    using h2 by (simp add: ex_preempted_def)
  show ?thesis
    using h3 wasted_attempt_monotone [OF h1 h2] by blast
qed

text \<open>
  Claim C8 fails on the code: a task whose first attempt is still \<^verbatim>\<open>Running\<close> and
  is followed by another attempt is aggregated like any other task. The row counts
  the running attempt's half hour in \<open>total_time_h\<close>, \<open>est_cost\<close>, \<open>attempts\<close>
  and \<open>max_preempt_time_h\<close>; it is not the row of the terminal attempts alone, and a
  row has no cell that could flag the violation.
\<close>

theorem running_attempt_counterexample:
  "executionStatus (ex_running ! 0) = ''Running'' \<and>
   get_stats_row ex_running =
     Inr \<lparr>time_h = Val 1, total_time_h = Val 1.5, max_preempt_time_h = Some (Val 0.5),
          machine_type = ''n1-standard-1'', attempts = Some 2, start_time = 1800,
          est_cost = Val 0.015, job_ids = ''a,b''\<rparr> \<and>
   get_stats_row (filter (\<lambda>a. executionStatus a \<noteq> ''Running'') ex_running) =
     Inr \<lparr>time_h = Val 1, total_time_h = Val 1, max_preempt_time_h = None,
          machine_type = ''n1-standard-1'', attempts = Some 1, start_time = 1800,
          est_cost = Val 0.01, job_ids = ''b''\<rparr>"
  by (simp add: ex_running_def get_stats_row_def max_preempt_cell_def gt1_def np_max_def np_sum_def
      workflow_time_def rsplit_last_def get_vm_cost_def getitem_def preemptible_dict_eval)

text \<open>
  Claim C8 as amended. The aggregator never reads the execution status: whatever
  status each attempt carries, the task gets the same row or the same error, so an
  attempt that is not terminal and not last is aggregated like a terminal one.
\<close>

theorem get_stats_row_ignores_status:
  "get_stats_row (map (\<lambda>a. a\<lparr>executionStatus := f a\<rparr>) xs) = get_stats_row xs"
proof -
  let ?g = "\<lambda>a::attempt. a\<lparr>executionStatus := f a\<rparr>"
  have wt: "workflow_time (?g a) = workflow_time a" for a
    by (simp add: workflow_time_def split: option.splits)
  have bl: "butlast (map ?g xs) = map ?g (butlast xs)" by (simp add: map_butlast)
  show ?thesis
  proof (cases "xs = []")
    case True
    then show ?thesis by simp
  next
    case False
    then show ?thesis
      by (simp add: get_stats_row_def Let_def max_preempt_cell_def bl last_map hd_map wt o_def
          split: sum.splits)
  qed
qed

section \<open>The state matrix\<close>













section \<open>The metadata fetches of the aggregator\<close>

lemma fetch_metadata_fails:
  "(i, row) \<in> set rows \<Longrightarrow> status_code (g (submission_id row) (workflow_id row)) \<noteq> 200 \<Longrightarrow>
   fetch_metadata g md rows = Inl AssertionError"
  by (induction rows arbitrary: md) (auto simp: Let_def)

text \<open>
  Claim C1 fails on the code: with two succeeded entities of which the first
  cannot be fetched, the aggregation raises and the second entity, whose
  aggregation alone succeeds, appears in no result.
\<close>

theorem failed_fetch_counterexample:
  "get_stats ex_service ex_status_df = Inl AssertionError \<and>
   get_stats ex_service [ex_status_df ! 1] =
     Inr ([ex_status_df ! 1],
          [(''align'',
            [(''sample_b'',
              \<lparr>time_h = Val 1, total_time_h = Val 1, max_preempt_time_h = None,
               machine_type = ''n1-standard-1'', attempts = Some 1, start_time = 0,
               est_cost = Val 0.01, job_ids = ''j''\<rparr>)])])"
  by (simp add: get_stats_def ex_status_df_def ex_row_def ex_service_def ex_md_def ex_done_def
      np_unique_def workflow_group_def Let_def mask_rows_def task_table_def
      get_stats_row_def max_preempt_cell_def gt1_def np_max_def np_sum_def
      workflow_time_def rsplit_last_def get_vm_cost_def getitem_def preemptible_dict_eval)

text \<open>
  Claim C1 as amended. A metadata fetch that does not answer 200 for one of the
  succeeded rows aborts the whole aggregation with an assertion failure: there
  is no output for any entity.
\<close>

theorem failed_fetch_aborts:
  assumes "(i, row) \<in> set status_df" and "status row = ''Succeeded''"
    and "status_code (g (submission_id row) (workflow_id row)) \<noteq> 200"
  shows "get_stats g status_df = Inl AssertionError"
proof -
  from assms(1,2) have "(i, row) \<in> set (filter (\<lambda>(i, row). status row = ''Succeeded'') status_df)"
    by simp
  from fetch_metadata_fails [where g = g, OF this assms(3)] show ?thesis
    by (simp add: get_stats_def)
qed

theorem failed_fetch_aborts_witness:
  "(''sample_a'', ex_row ''Succeeded'' ''s1'' ''w1'') \<in> set ex_status_df \<and>
   (''sample_b'', ex_row ''Succeeded'' ''s2'' ''w2'') \<in> set ex_status_df \<and>
   status_code (ex_service ''s1'' ''w1'') = 500 \<and>
   status_code (ex_service ''s2'' ''w2'') = 200 \<and>
   get_stats ex_service ex_status_df = Inl AssertionError"
proof -
  have h1: "(''sample_a'', ex_row ''Succeeded'' ''s1'' ''w1'') \<in> set ex_status_df"
    by (simp add: ex_status_df_def)
  have h2: "status (ex_row ''Succeeded'' ''s1'' ''w1'') = ''Succeeded''"
    by (simp add: ex_row_def)
  have h3: "status_code (ex_service (submission_id (ex_row ''Succeeded'' ''s1'' ''w1''))
              (workflow_id (ex_row ''Succeeded'' ''s1'' ''w1''))) \<noteq> 200"
    by (simp add: ex_row_def ex_service_def)
  from failed_fetch_aborts [where g = ex_service, OF h1 h2 h3] show ?thesis
    by (simp add: ex_status_df_def ex_service_def)
qed

section \<open>The status reducer\<close>

subsection \<open>The loop as a fold of guarded assignments\<close>

lemma timestamp_record_of [simp]: "timestamp (record_of s w) = submissionDate s"
  by (simp add: record_of_def)

lemma store_root_Inr:
  "store_root d s ws = Inr d' \<Longrightarrow>
   d' = foldl keep_newer d (case ws of [] \<Rightarrow> [] | w # _ \<Rightarrow> [(entityName s, record_of s w)])"
  by (auto simp: store_root_def keep_newer_def split: if_splits list.splits)

lemma store_members_Inr:
  "store_members d s ws = Inr d' \<Longrightarrow>
   d' = foldl keep_newer d (member_pairs s ws)"
proof (induction ws arbitrary: d)
  case Nil
  then show ?case by simp
next
  case (Cons w ws)
  from Cons.prems obtain n where n: "workflowEntity w = Some n"
    by (cases "workflowEntity w") auto
  from Cons.prems n have
    "store_members (if is_newer d n (submissionDate s) then AList.update n (record_of s w) d else d) s ws
       = Inr d'" by simp
  from Cons.IH [OF this] n show ?case
    by (simp add: keep_newer_def)
qed

lemma reduce_submission_Inr:
  assumes "reduce_submission g d s = Inr d'"
  shows "d' = foldl keep_newer d (derived g s)"
proof -
  let ?ws = "json (g (submissionId s))"
  consider (root) "entityType s = ''sample'' \<or> (entityType s = ''sample_set'' \<and> length ?ws = 1)
                   \<or> entityType s = ''participant''"
    | (members) "entityType s = ''sample_set''" "length ?ws \<noteq> 1"
    | (other) "entityType s \<noteq> ''sample''" "entityType s \<noteq> ''sample_set''"
              "entityType s \<noteq> ''participant''"
    by blast
  then show ?thesis
  proof cases
    case root
    with assms have "store_root d s ?ws = Inr d'"
      by (auto simp: reduce_submission_def Let_def split: if_splits)
    from store_root_Inr [OF this] root show ?thesis
      by (auto simp: derived_def Let_def)
  next
    case members
    with assms have "store_members d s ?ws = Inr d'"
      by (auto simp: reduce_submission_def Let_def split: if_splits)
    from store_members_Inr [OF this] members show ?thesis
      by (simp add: derived_def Let_def)
  next
    case other
    with assms show ?thesis
      by (auto simp: reduce_submission_def derived_def Let_def split: if_splits)
  qed
qed

lemma reduce_submissions_Inr:
  "reduce_submissions g d ss = Inr d' \<Longrightarrow>
   d' = foldl keep_newer d (concat (map (derived g) ss))"
proof (induction ss arbitrary: d)
  case Nil
  then show ?case by simp
next
  case (Cons s ss)
  from Cons.prems obtain d1 where d1: "reduce_submission g d s = Inr d1"
    and rest: "reduce_submissions g d1 ss = Inr d'"
    by (auto split: sum.splits)
  from Cons.IH [OF rest] reduce_submission_Inr [OF d1] show ?case by simp
qed

lemma status_table_Inr:
  assumes "status_table g subs = Inr df"
  shows "df = foldl keep_newer [] (concat (map (derived g) subs))"
proof -
  from assms have "reduce_submissions g [] subs = Inr df"
    by (auto simp: status_table_def split: sum.splits if_splits)
  then show ?thesis by (rule reduce_submissions_Inr)
qed

lemma store_members_total:
  "list_all (\<lambda>w. workflowEntity w \<noteq> None) ws \<Longrightarrow>
   store_members d s ws = Inr (foldl keep_newer d (member_pairs s ws))"
  by (induction ws arbitrary: d) (auto simp: keep_newer_def)

lemma store_root_total:
  "ws \<noteq> [] \<Longrightarrow>
   store_root d s ws = Inr (foldl keep_newer d [(entityName s, record_of s (hd ws))])"
  by (cases ws) (auto simp: store_root_def keep_newer_def)

lemma reduce_submission_total:
  assumes "well_formed g s"
  shows "reduce_submission g d s = Inr (foldl keep_newer d (derived g s))"
proof -
  let ?ws = "json (g (submissionId s))"
  from assms have ok: "status_code (g (submissionId s)) = 200"
    by (simp add: well_formed_def Let_def)
  show ?thesis
  proof (cases "entityType s = ''sample_set'' \<and> length ?ws \<noteq> 1")
    case True
    with assms have "list_all (\<lambda>w. workflowEntity w \<noteq> None) ?ws"
      by (simp add: well_formed_def Let_def)
    from store_members_total [OF this] True ok show ?thesis
      by (simp add: reduce_submission_def derived_def Let_def)
  next
    case False
    show ?thesis
    proof (cases "entityType s = ''sample'' \<or> entityType s = ''sample_set''
                  \<or> entityType s = ''participant''")
      case root: True
      have "?ws \<noteq> []"
        using assms unfolding well_formed_def Let_def
        using False root by (simp only: if_False if_True) simp
      then obtain w ws' where ws: "?ws = w # ws'" by (cases ?ws) auto
      have d: "derived g s = [(entityName s, record_of s w)]"
        unfolding derived_def Let_def using False root ws by (simp only: if_False if_True) simp
      have "reduce_submission g d s = store_root d s ?ws"
        using False root ok by (auto simp: reduce_submission_def Let_def)
      also have "\<dots> = Inr (foldl keep_newer d [(entityName s, record_of s (hd ?ws))])"
        by (rule store_root_total) (simp add: ws)
      finally show ?thesis by (simp add: d ws)
    next
      case other: False
      have d: "derived g s = []"
        unfolding derived_def Let_def using False other by (simp only: if_False)
      from other ok show ?thesis
        by (auto simp: reduce_submission_def Let_def d)
    qed
  qed
qed

lemma reduce_submissions_total:
  "\<forall>s\<in>set ss. well_formed g s \<Longrightarrow>
   reduce_submissions g d ss = Inr (foldl keep_newer d (concat (map (derived g) ss)))"
  by (induction ss arbitrary: d) (simp_all add: reduce_submission_total)

lemma keep_newer_nonempty: "keep_newer [] p \<noteq> []"
  by (simp add: keep_newer_def is_newer_def)

lemma keep_newer_nonempty': "d \<noteq> [] \<Longrightarrow> keep_newer d p \<noteq> []"
  by (simp add: keep_newer_def)

lemma foldl_keep_newer_nonempty: "d \<noteq> [] \<or> ps \<noteq> [] \<Longrightarrow> foldl keep_newer d ps \<noteq> []"
proof (induction ps arbitrary: d)
  case Nil
  then show ?case by simp
next
  case (Cons p ps)
  have "keep_newer d p \<noteq> []"
    by (cases "d = []") (simp_all add: keep_newer_nonempty keep_newer_nonempty')
  with Cons.IH [of "keep_newer d p"] show ?case by simp
qed

lemma status_table_total:
  assumes "\<forall>s\<in>set subs. well_formed g s" and "\<exists>s\<in>set subs. \<exists>e. touches g s e"
  shows "\<exists>df. status_table g subs = Inr df"
proof -
  from assms(2) obtain s e where "s \<in> set subs" "touches g s e" by blast
  then have "concat (map (derived g) subs) \<noteq> []"
    by (force simp: touches_def)
  then have "foldl keep_newer [] (concat (map (derived g) subs)) \<noteq> []"
    by (simp add: foldl_keep_newer_nonempty)
  then show ?thesis
    by (simp add: status_table_def reduce_submissions_total [OF assms(1)])
qed

subsection \<open>The record of one entity\<close>

lemma map_of_keep_newer:
  "map_of (keep_newer d p) e = (if fst p = e then pick (map_of d e) (snd p) else map_of d e)"
  by (cases "map_of d (fst p)")
     (auto simp: keep_newer_def is_newer_def update_conv')

lemma distinct_keep_newer: "distinct (map fst d) \<Longrightarrow> distinct (map fst (keep_newer d p))"
  by (simp add: keep_newer_def distinct_update)

lemma distinct_foldl_keep_newer:
  "distinct (map fst d) \<Longrightarrow> distinct (map fst (foldl keep_newer d ps))"
  by (induction ps arbitrary: d) (auto simp: distinct_keep_newer)

lemma map_of_foldl_keep_newer:
  "map_of (foldl keep_newer d ps) e =
     foldl pick (map_of d e) (map snd (filter (\<lambda>p. fst p = e) ps))"
  by (induction ps arbitrary: d) (auto simp: map_of_keep_newer)

lemma status_table_distinct:
  assumes "status_table g subs = Inr df"
  shows "distinct (map fst df)"
  unfolding status_table_Inr [OF assms] by (rule distinct_foldl_keep_newer) simp

lemma status_table_lookup:
  assumes "status_table g subs = Inr df"
  shows "map_of df e =
           foldl pick None (map snd (filter (\<lambda>p. fst p = e) (concat (map (derived g) subs))))"
  unfolding status_table_Inr [OF assms] by (simp add: map_of_foldl_keep_newer)

lemma pick_ge: "\<exists>y. pick x b = Some y \<and> timestamp b \<le> timestamp y"
  by (cases x) auto

lemma foldl_pick_None_iff: "foldl pick x rs = None \<longleftrightarrow> x = None \<and> rs = []"
proof (induction rs arbitrary: x)
  case Nil
  then show ?case by simp
next
  case (Cons r rs)
  have "pick x r \<noteq> None" by (cases x) auto
  with Cons show ?case by simp
qed

lemma foldl_pick_mem:
  "foldl pick x rs = Some r \<Longrightarrow> x = Some r \<or> r \<in> set rs"
proof (induction rs arbitrary: x)
  case Nil
  then show ?case by simp
next
  case (Cons a rs)
  from Cons.IH [OF Cons.prems [simplified]] show ?case
    by (cases x) (auto split: if_splits)
qed

lemma foldl_pick_ge_init:
  "foldl pick (Some r0) rs = Some r \<Longrightarrow> timestamp r0 \<le> timestamp r"
proof (induction rs arbitrary: r0)
  case Nil
  then show ?case by simp
next
  case (Cons a rs)
  show ?case
  proof (cases "timestamp r0 < timestamp a")
    case True
    with Cons.prems have "foldl pick (Some a) rs = Some r" by simp
    from Cons.IH [OF this] True show ?thesis by simp
  next
    case False
    with Cons.prems have "foldl pick (Some r0) rs = Some r" by simp
    from Cons.IH [OF this] show ?thesis .
  qed
qed

lemma foldl_pick_ge_all:
  "foldl pick x rs = Some r \<Longrightarrow> a \<in> set rs \<Longrightarrow> timestamp a \<le> timestamp r"
proof (induction rs arbitrary: x)
  case Nil
  then show ?case by simp
next
  case (Cons b rs)
  from pick_ge [of x b] obtain y where y: "pick x b = Some y"
    and bound: "timestamp b \<le> timestamp y" by blast
  from Cons.prems have f: "foldl pick (Some y) rs = Some r" by (simp add: y)
  show ?case
  proof (cases "a = b")
    case True
    with foldl_pick_ge_init [OF f] bound show ?thesis by simp
  next
    case False
    with Cons.prems have "a \<in> set rs" by simp
    from Cons.IH [OF _ this, of "Some y"] f show ?thesis by simp
  qed
qed

lemma foldl_pick_stay:
  "\<forall>r\<in>set rs. timestamp r \<le> timestamp r0 \<Longrightarrow> foldl pick (Some r0) rs = Some r0"
  by (induction rs) auto

lemma foldl_pick_block:
  assumes "\<forall>r\<in>set rs. timestamp r = c"
  shows "foldl pick x rs =
           (case rs of
              [] \<Rightarrow> x
            | r # _ \<Rightarrow> (case x of
                          None \<Rightarrow> Some r
                        | Some r0 \<Rightarrow> if timestamp r0 < c then Some r else Some r0))"
proof (cases rs)
  case Nil
  then show ?thesis by simp
next
  case (Cons r rs')
  with assms have r: "timestamp r = c" and rest: "\<forall>a\<in>set rs'. timestamp a = c" by auto
  show ?thesis
  proof (cases x)
    case None
    from rest r have "foldl pick (Some r) rs' = Some r" by (intro foldl_pick_stay) auto
    with None Cons show ?thesis by simp
  next
    case (Some r0)
    show ?thesis
    proof (cases "timestamp r0 < c")
      case True
      from rest r have "foldl pick (Some r) rs' = Some r" by (intro foldl_pick_stay) auto
      with True Some Cons r show ?thesis by simp
    next
      case False
      with rest have "foldl pick (Some r0) rs' = Some r0" by (intro foldl_pick_stay) auto
      with False Some Cons r show ?thesis by simp
    qed
  qed
qed

subsection \<open>The records of one submission\<close>

lemma member_pairs_timestamp:
  "(e, r) \<in> set (member_pairs s ws) \<Longrightarrow> timestamp r = submissionDate s"
  by (induction ws) (auto split: option.splits)

lemma derived_root:
  assumes "\<not> (entityType s = ''sample_set'' \<and> length (json (g (submissionId s))) \<noteq> 1)"
  shows "set (derived g s) \<subseteq>
           set (case json (g (submissionId s)) of
                  [] \<Rightarrow> []
                | w # _ \<Rightarrow> [(entityName s, record_of s w)])"
proof (cases "entityType s = ''sample'' \<or> entityType s = ''sample_set''
                \<or> entityType s = ''participant''")
  case True
  have "derived g s =
          (case json (g (submissionId s)) of
             [] \<Rightarrow> []
           | w # _ \<Rightarrow> [(entityName s, record_of s w)])"
    unfolding derived_def Let_def using assms True by (simp only: if_False if_True)
  then show ?thesis by simp
next
  case False
  have "derived g s = []"
    unfolding derived_def Let_def using assms False by (simp only: if_False)
  then show ?thesis by simp
qed

lemma derived_timestamp:
  assumes "(e, r) \<in> set (derived g s)"
  shows "timestamp r = submissionDate s"
proof (cases "entityType s = ''sample_set'' \<and> length (json (g (submissionId s))) \<noteq> 1")
  case True
  with assms have "(e, r) \<in> set (member_pairs s (json (g (submissionId s))))"
    by (simp add: derived_def)
  then show ?thesis by (rule member_pairs_timestamp)
next
  case False
  from derived_root [where g = g and s = s, OF False] assms
  have "(e, r) \<in> set (case json (g (submissionId s)) of
                        [] \<Rightarrow> []
                      | w # _ \<Rightarrow> [(entityName s, record_of s w)])" by blast
  then show ?thesis
    by (cases "json (g (submissionId s))") simp_all
qed

lemma block_timestamp:
  assumes "r \<in> set (block g s e)"
  shows "timestamp r = submissionDate s"
proof -
  from assms obtain k where "(k, r) \<in> set (derived g s)"
    by (auto simp: block_def)
  then show ?thesis by (rule derived_timestamp)
qed

lemma block_nonempty_iff: "block g s e \<noteq> [] \<longleftrightarrow> touches g s e"
  by (auto simp: block_def touches_def filter_empty_conv image_iff)

lemma concat_derived_mem:
  "(e, r) \<in> set (concat (map (derived g) subs)) \<longleftrightarrow> (\<exists>s\<in>set subs. (e, r) \<in> set (derived g s))"
  by auto

lemma records_mem:
  "r \<in> set (map snd (filter (\<lambda>p. fst p = e) ps)) \<longleftrightarrow> (e, r) \<in> set ps"
  by (auto simp: image_iff)

subsection \<open>Latest record of every entity\<close>

lemma status_table_keys:
  assumes "status_table g subs = Inr df"
  shows "e \<in> fst ` set df \<longleftrightarrow> (\<exists>s\<in>set subs. touches g s e)"
proof -
  have "e \<in> fst ` set df \<longleftrightarrow> map_of df e \<noteq> None"
    by (simp add: map_of_eq_None_iff)
  also have "\<dots> \<longleftrightarrow> map snd (filter (\<lambda>p. fst p = e) (concat (map (derived g) subs))) \<noteq> []"
    by (simp only: status_table_lookup [OF assms] foldl_pick_None_iff) simp
  also have "\<dots> \<longleftrightarrow> (\<exists>r. (e, r) \<in> set (concat (map (derived g) subs)))"
    using records_mem [of _ e "concat (map (derived g) subs)"]
    by (metis equals0I empty_iff empty_set set_empty2)
  also have "\<dots> \<longleftrightarrow> (\<exists>s\<in>set subs. touches g s e)"
    by (simp only: concat_derived_mem touches_def) force
  finally show ?thesis .
qed

lemma status_table_latest:
  assumes "status_table g subs = Inr df" and "(e, r) \<in> set df"
  shows "timestamp r = Max (submissionDate ` {s \<in> set subs. touches g s e})"
proof -
  let ?rs = "map snd (filter (\<lambda>p. fst p = e) (concat (map (derived g) subs)))"
  from assms(2) status_table_distinct [OF assms(1)] have "map_of df e = Some r" by simp
  then have f: "foldl pick None ?rs = Some r"
    by (simp only: status_table_lookup [OF assms(1)])
  from foldl_pick_mem [OF f] have "r \<in> set ?rs" by simp
  then have "(e, r) \<in> set (concat (map (derived g) subs))" by (simp only: records_mem)
  then obtain s where s: "s \<in> set subs" "(e, r) \<in> set (derived g s)"
    by (auto simp only: concat_derived_mem)
  from derived_timestamp [OF s(2)] have ts: "timestamp r = submissionDate s" .
  from s(2) have "touches g s e" by (force simp: touches_def)
  with s(1) ts have mem: "timestamp r \<in> submissionDate ` {s \<in> set subs. touches g s e}"
    by blast
  have ub: "x \<le> timestamp r" if "x \<in> submissionDate ` {s \<in> set subs. touches g s e}" for x
  proof -
    from that obtain t where t: "t \<in> set subs" "touches g t e" "x = submissionDate t" by blast
    from t(2) obtain r' where r': "(e, r') \<in> set (derived g t)"
      by (auto simp: touches_def)
    with t(1) have "(e, r') \<in> set (concat (map (derived g) subs))"
      by (auto simp only: concat_derived_mem)
    then have "r' \<in> set ?rs" by (simp only: records_mem)
    from foldl_pick_ge_all [OF f this] derived_timestamp [OF r'] t(3) show ?thesis by simp
  qed
  show ?thesis
    by (rule Max_eqI [symmetric]) (use mem ub in auto)
qed

text \<open>
  Claim C2. A table returned by the status reducer has one row for each entity
  that a matching submission touches and no other row, and the timestamp of a row
  is the largest submission timestamp among the matching submissions that touch
  its entity. Two matching submissions for one sample, the older failed and the
  newer succeeded, give the single row of the newer one, in either list order.
  The reducer does return a table when every reply is well formed and some
  matching submission touches an entity.
\<close>

theorem latest_record_per_entity:
  "(get_submission_status ls g config = Inr df \<longrightarrow>
      distinct (map fst df) \<and>
      (\<forall>e. e \<in> fst ` set df \<longleftrightarrow> (\<exists>s\<in>set (matching config (json ls)). touches g s e)) \<and>
      (\<forall>(e, r)\<in>set df.
         timestamp r = Max (submissionDate ` {s \<in> set (matching config (json ls)). touches g s e}))) \<and>
   (status_code ls = 200 \<and> (json ls = [s1, s2] \<or> json ls = [s2, s1]) \<and>
    contains (methodConfigurationName s1) config \<and> contains (methodConfigurationName s2) config \<and>
    entityType s1 = ''sample'' \<and> entityType s2 = ''sample'' \<and> entityName s2 = entityName s1 \<and>
    submissionDate s1 < submissionDate s2 \<and>
    g (submissionId s1) = \<lparr>status_code = 200, json = [w1]\<rparr> \<and> wf_status w1 = ''Failed'' \<and>
    g (submissionId s2) = \<lparr>status_code = 200, json = [w2]\<rparr> \<and> wf_status w2 = ''Succeeded''
    \<longrightarrow> get_submission_status ls g config =
          Inr [(entityName s1,
                \<lparr>status = ''Succeeded'', timestamp = submissionDate s2,
                 submission_id = submissionId s2, configuration = methodConfigurationName s2,
                 workflow_id = workflowId w2\<rparr>)]) \<and>
   (status_code ls = 200 \<and> (\<forall>s\<in>set (matching config (json ls)). well_formed g s) \<and>
    (\<exists>s\<in>set (matching config (json ls)). \<exists>e. touches g s e)
    \<longrightarrow> (\<exists>df'. get_submission_status ls g config = Inr df'))"
proof (intro conjI impI)
  assume "get_submission_status ls g config = Inr df"
  then have st: "status_table g (matching config (json ls)) = Inr df"
    by (simp add: get_submission_status_def matching_def split: if_splits)
  show "distinct (map fst df)" by (rule status_table_distinct [OF st])
  show "\<forall>e. e \<in> fst ` set df \<longleftrightarrow> (\<exists>s\<in>set (matching config (json ls)). touches g s e)"
    using status_table_keys [OF st] by blast
  show "\<forall>(e, r)\<in>set df.
         timestamp r = Max (submissionDate ` {s \<in> set (matching config (json ls)). touches g s e})"
    using status_table_latest [OF st] by blast
next
  assume a: "status_code ls = 200 \<and> (json ls = [s1, s2] \<or> json ls = [s2, s1]) \<and>
    contains (methodConfigurationName s1) config \<and> contains (methodConfigurationName s2) config \<and>
    entityType s1 = ''sample'' \<and> entityType s2 = ''sample'' \<and> entityName s2 = entityName s1 \<and>
    submissionDate s1 < submissionDate s2 \<and>
    g (submissionId s1) = \<lparr>status_code = 200, json = [w1]\<rparr> \<and> wf_status w1 = ''Failed'' \<and>
    g (submissionId s2) = \<lparr>status_code = 200, json = [w2]\<rparr> \<and> wf_status w2 = ''Succeeded''"
  then show "get_submission_status ls g config =
          Inr [(entityName s1,
                \<lparr>status = ''Succeeded'', timestamp = submissionDate s2,
                 submission_id = submissionId s2, configuration = methodConfigurationName s2,
                 workflow_id = workflowId w2\<rparr>)]"
    by (auto simp: get_submission_status_def status_table_def reduce_submission_def store_root_def
        is_newer_def record_of_def)
next
  assume b: "status_code ls = 200 \<and> (\<forall>s\<in>set (matching config (json ls)). well_formed g s) \<and>
    (\<exists>s\<in>set (matching config (json ls)). \<exists>e. touches g s e)"
  then have "\<exists>df'. status_table g (matching config (json ls)) = Inr df'"
    by (intro status_table_total) simp_all
  with b show "\<exists>df'. get_submission_status ls g config = Inr df'"
    by (simp add: get_submission_status_def matching_def)
qed

theorem latest_record_per_entity_witness:
  "get_submission_status ex_list_submissions ex_submission_service ''cfg'' =
     Inr [(''sample_a'', ex_record ''Succeeded'' 200 ''sub2'' ''wf2'')] \<and>
   distinct (map fst [(''sample_a'', ex_record ''Succeeded'' 200 ''sub2'' ''wf2'')]) \<and>
   timestamp (ex_record ''Succeeded'' 200 ''sub2'' ''wf2'') =
     Max (submissionDate `
          {s \<in> set (matching ''cfg'' (json ex_list_submissions)).
           touches ex_submission_service s ''sample_a''})"
proof -
  let ?df = "[(''sample_a'', ex_record ''Succeeded'' 200 ''sub2'' ''wf2'')]"
  let ?w1 = "\<lparr>wf_status = ''Failed'', workflowId = ''wf1'', workflowEntity = None\<rparr>"
  let ?w2 = "\<lparr>wf_status = ''Succeeded'', workflowId = ''wf2'', workflowEntity = None\<rparr>"
  have h: "status_code ex_list_submissions = 200 \<and>
    (json ex_list_submissions = [ex_sub ''sub1'' 100, ex_sub ''sub2'' 200] \<or>
     json ex_list_submissions = [ex_sub ''sub2'' 200, ex_sub ''sub1'' 100]) \<and>
    contains (methodConfigurationName (ex_sub ''sub1'' 100)) ''cfg'' \<and>
    contains (methodConfigurationName (ex_sub ''sub2'' 200)) ''cfg'' \<and>
    entityType (ex_sub ''sub1'' 100) = ''sample'' \<and> entityType (ex_sub ''sub2'' 200) = ''sample'' \<and>
    entityName (ex_sub ''sub2'' 200) = entityName (ex_sub ''sub1'' 100) \<and>
    submissionDate (ex_sub ''sub1'' 100) < submissionDate (ex_sub ''sub2'' 200) \<and>
    ex_submission_service (submissionId (ex_sub ''sub1'' 100)) = \<lparr>status_code = 200, json = [?w1]\<rparr> \<and>
    wf_status ?w1 = ''Failed'' \<and>
    ex_submission_service (submissionId (ex_sub ''sub2'' 200)) = \<lparr>status_code = 200, json = [?w2]\<rparr> \<and>
    wf_status ?w2 = ''Succeeded''"
    by (simp add: ex_list_submissions_def ex_sub_def ex_submission_service_def)
  note t = latest_record_per_entity [of ex_list_submissions ex_submission_service "''cfg''" ?df
      "ex_sub ''sub1'' 100" "ex_sub ''sub2'' 200" ?w1 ?w2]
  from t h have r: "get_submission_status ex_list_submissions ex_submission_service ''cfg'' = Inr ?df"
    by (simp add: ex_sub_def ex_record_def)
  with t show ?thesis by simp
qed

subsection \<open>Order of the submissions\<close>

lemma absorb_commute:
  assumes "s \<noteq> t \<and> (\<exists>e. touches g s e \<and> touches g t e) \<longrightarrow> submissionDate s \<noteq> submissionDate t"
  shows "absorb g s \<circ> absorb g t = absorb g t \<circ> absorb g s"
proof (cases "s = t")
  case True
  then show ?thesis by simp
next
  case False
  show ?thesis
  proof (rule ext, rule ext)
    fix m e
    have bs: "\<forall>r\<in>set (block g s e). timestamp r = submissionDate s"
      by (simp add: block_timestamp)
    have bt: "\<forall>r\<in>set (block g t e). timestamp r = submissionDate t"
      by (simp add: block_timestamp)
    show "(absorb g s \<circ> absorb g t) m e = (absorb g t \<circ> absorb g s) m e"
    proof (cases "block g s e = [] \<or> block g t e = []")
      case True
      then show ?thesis by (auto simp: absorb_def)
    next
      case False
      then obtain a as b bs' where a: "block g s e = a # as" and b: "block g t e = b # bs'"
        by (cases "block g s e"; cases "block g t e") auto
      from False have "touches g s e" "touches g t e"
        by (simp_all add: block_nonempty_iff [symmetric])
      with assms \<open>s \<noteq> t\<close> have ne: "submissionDate s \<noteq> submissionDate t" by blast
      have ta: "timestamp a = submissionDate s" using bs a by simp
      have tb: "timestamp b = submissionDate t" using bt b by simp
      show ?thesis
        unfolding absorb_def o_def
        by (simp only: foldl_pick_block [OF bs] foldl_pick_block [OF bt])
           (cases "m e"; use ne ta tb in \<open>auto simp: a b\<close>)
    qed
  qed
qed

lemma map_of_absorb:
  "map_of (foldl keep_newer d (derived g s)) = absorb g s (map_of d)"
  by (rule ext) (simp add: map_of_foldl_keep_newer absorb_def block_def)

lemma map_of_reduce_all:
  "map_of (foldl keep_newer d (concat (map (derived g) ss))) = fold (absorb g) ss (map_of d)"
  by (induction ss arbitrary: d) (simp_all add: map_of_absorb)

lemma status_table_map_of:
  assumes "status_table g subs = Inr df"
  shows "map_of df = fold (absorb g) subs Map.empty"
  unfolding status_table_Inr [OF assms] by (simp add: map_of_reduce_all)

text \<open>
  Claim C3 fails on the code. Two submissions for one sample with the same
  timestamp: the one that comes first in the list wins, so the two orders give
  different statuses. A submission without workflows for the same sample: met
  first it raises, met after a newer submission it is skipped.
\<close>

theorem reducer_order_counterexample:
  "status_table ex_submission_service [ex_sub ''sub1'' 100, ex_sub ''sub2'' 100] =
     Inr [(''sample_a'', ex_record ''Failed'' 100 ''sub1'' ''wf1'')] \<and>
   status_table ex_submission_service [ex_sub ''sub2'' 100, ex_sub ''sub1'' 100] =
     Inr [(''sample_a'', ex_record ''Succeeded'' 100 ''sub2'' ''wf2'')] \<and>
   status_table ex_submission_service [ex_sub ''sub0'' 50, ex_sub ''sub1'' 100] = Inl IndexError \<and>
   status_table ex_submission_service [ex_sub ''sub1'' 100, ex_sub ''sub0'' 50] =
     Inr [(''sample_a'', ex_record ''Failed'' 100 ''sub1'' ''wf1'')]"
  by (simp add: status_table_def reduce_submission_def store_root_def is_newer_def record_of_def
      ex_submission_service_def ex_sub_def ex_record_def)

text \<open>
  Claim C3 as amended. When any two submissions that touch a common entity carry
  different timestamps, and the reducer returns a table for a list of submissions
  and for a permutation of it, the two tables hold the same record (status,
  timestamp, submission id, workflow id, configuration) for every entity; only
  the order of the rows may differ.
\<close>

theorem reducer_order_independent:
  assumes "mset subs' = mset subs"
    and "\<forall>s\<in>set subs. \<forall>t\<in>set subs.
           s \<noteq> t \<and> (\<exists>e. touches g s e \<and> touches g t e)
           \<longrightarrow> submissionDate s \<noteq> submissionDate t"
    and "status_table g subs = Inr df"
    and "status_table g subs' = Inr df'"
  shows "set df' = set df \<and> distinct (map fst df) \<and> distinct (map fst df')"
proof -
  have "fold (absorb g) subs = fold (absorb g) subs'"
  proof (rule fold_multiset_equiv)
    fix s t assume "s \<in> set subs" "t \<in> set subs"
    with assms(2) have "s \<noteq> t \<and> (\<exists>e. touches g s e \<and> touches g t e)
        \<longrightarrow> submissionDate s \<noteq> submissionDate t" by blast
    then show "absorb g s \<circ> absorb g t = absorb g t \<circ> absorb g s"
      by (rule absorb_commute)
  next
    show "mset subs = mset subs'" using assms(1) by simp
  qed
  then have "map_of df' = map_of df"
    by (simp add: status_table_map_of [OF assms(3)] status_table_map_of [OF assms(4)])
  moreover note d = status_table_distinct [OF assms(3)] and d' = status_table_distinct [OF assms(4)]
  ultimately have "set df' = set df"
    by (simp add: map_of_inject_set)
  with d d' show ?thesis by simp
qed

theorem reducer_order_independent_witness:
  "mset [ex_sub ''sub3'' 150\<lparr>entityName := ''sample_b''\<rparr>, ex_sub ''sub2'' 200, ex_sub ''sub1'' 100]
     = mset [ex_sub ''sub1'' 100, ex_sub ''sub3'' 150\<lparr>entityName := ''sample_b''\<rparr>, ex_sub ''sub2'' 200] \<and>
   status_table ex_submission_service
       [ex_sub ''sub1'' 100, ex_sub ''sub3'' 150\<lparr>entityName := ''sample_b''\<rparr>, ex_sub ''sub2'' 200] =
     Inr [(''sample_a'', ex_record ''Succeeded'' 200 ''sub2'' ''wf2''),
          (''sample_b'', ex_record ''Running'' 150 ''sub3'' ''wf3'')] \<and>
   status_table ex_submission_service
       [ex_sub ''sub3'' 150\<lparr>entityName := ''sample_b''\<rparr>, ex_sub ''sub2'' 200, ex_sub ''sub1'' 100] =
     Inr [(''sample_b'', ex_record ''Running'' 150 ''sub3'' ''wf3''),
          (''sample_a'', ex_record ''Succeeded'' 200 ''sub2'' ''wf2'')] \<and>
   set [(''sample_b'', ex_record ''Running'' 150 ''sub3'' ''wf3''),
        (''sample_a'', ex_record ''Succeeded'' 200 ''sub2'' ''wf2'')] =
     set [(''sample_a'', ex_record ''Succeeded'' 200 ''sub2'' ''wf2''),
          (''sample_b'', ex_record ''Running'' 150 ''sub3'' ''wf3'')]"
proof -
  let ?subs = "[ex_sub ''sub1'' 100, ex_sub ''sub3'' 150\<lparr>entityName := ''sample_b''\<rparr>, ex_sub ''sub2'' 200]"
  let ?subs' = "[ex_sub ''sub3'' 150\<lparr>entityName := ''sample_b''\<rparr>, ex_sub ''sub2'' 200, ex_sub ''sub1'' 100]"
  let ?df = "[(''sample_a'', ex_record ''Succeeded'' 200 ''sub2'' ''wf2''),
              (''sample_b'', ex_record ''Running'' 150 ''sub3'' ''wf3'')]"
  let ?df' = "[(''sample_b'', ex_record ''Running'' 150 ''sub3'' ''wf3''),
               (''sample_a'', ex_record ''Succeeded'' 200 ''sub2'' ''wf2'')]"
  have h1: "mset ?subs' = mset ?subs" by simp
  have h2: "\<forall>s\<in>set ?subs. \<forall>t\<in>set ?subs.
           s \<noteq> t \<and> (\<exists>e. touches ex_submission_service s e \<and> touches ex_submission_service t e)
           \<longrightarrow> submissionDate s \<noteq> submissionDate t"
    by (simp add: ex_sub_def)
  have h3: "status_table ex_submission_service ?subs = Inr ?df"
    by (simp add: status_table_def reduce_submission_def store_root_def is_newer_def record_of_def
        ex_submission_service_def ex_sub_def ex_record_def)
  have h4: "status_table ex_submission_service ?subs' = Inr ?df'"
    by (simp add: status_table_def reduce_submission_def store_root_def is_newer_def record_of_def
        ex_submission_service_def ex_sub_def ex_record_def)
  from reducer_order_independent [where g = ex_submission_service, OF h1 h2 h3 h4] h1 h3 h4
  show ?thesis by simp
qed

end
